theory Spec2Isabelle
  imports Complex_Main
begin

section \<open>Time\<close>

text \<open>
  A \<^verbatim>\<open>time.Time\<close> is an instant counted in nanoseconds from a fixed origin, a
  \<^verbatim>\<open>time.Duration\<close> a number of nanoseconds. Every call of
  \<^verbatim>\<open>time.Now()\<close> in the source is an explicit argument of the model: the
  instant that call returned.
\<close>

type_synonym time = int

type_synonym duration = int

definition Second :: duration where
  "Second = 1000000000"

definition Minute :: duration where
  "Minute = 60 * Second"

definition minDuration :: duration where
  "minDuration = - (2 ^ 63)"

definition maxDuration :: duration where
  "maxDuration = 2 ^ 63 - 1"

text \<open>
  \<^verbatim>\<open>t.Sub(u)\<close> is the difference of two instants, and the largest (smallest)
  duration when the difference does not fit 64 bits.
  \<^verbatim>\<open>time.Since(t)\<close> is \<^verbatim>\<open>time.Now().Sub(t)\<close>; its first argument
  here is what \<^verbatim>\<open>time.Now()\<close> returned.
\<close>

definition Sub :: "time \<Rightarrow> time \<Rightarrow> duration" where
  "Sub t u = (if t - u > maxDuration then maxDuration
              else if t - u < minDuration then minDuration
              else t - u)"

definition Since :: "time \<Rightarrow> time \<Rightarrow> duration" where
  "Since now t = Sub now t"

section \<open>The limiter\<close>

text \<open>
  Modelled from the spec: the type \<^verbatim>\<open>rate.Limiter\<close> and its method
  \<^verbatim>\<open>Allow\<close> belong to the package golang.org/x/time/rate, which is not among
  the source files. Section 4.1 of the specification describes the bucket: compute the
  elapsed seconds since \<^verbatim>\<open>lastRefillTime\<close>, add
  \<^verbatim>\<open>elapsed * refillRatePerSecond\<close> tokens, capped at
  \<^verbatim>\<open>capacity\<close>, set \<^verbatim>\<open>lastRefillTime = now\<close>; if
  \<^verbatim>\<open>tokens \<ge> 1\<close> subtract 1 and admit, otherwise do not admit and leave
  the tokens as they are. Token counts are real numbers here (the library holds them in
  a float64).
\<close>

record TokenBucket =
  capacity :: int
  refillRatePerSecond :: real
  tokens :: real
  lastRefillTime :: time

text \<open>
  Modelled from the spec: \<^verbatim>\<open>rate.NewLimiter(r, b)\<close>. A bucket is created
  with \<^verbatim>\<open>tokens = capacity\<close>; the third argument is the instant of creation.
\<close>

definition NewLimiter :: "real \<Rightarrow> int \<Rightarrow> time \<Rightarrow> TokenBucket" where
  "NewLimiter r b t0 =
     \<lparr>capacity = b, refillRatePerSecond = r, tokens = of_int b, lastRefillTime = t0\<rparr>"

text \<open>
  Modelled from the spec: \<^verbatim>\<open>lim.Allow()\<close>, the \<^verbatim>\<open>tryAcquire(now)\<close>
  of section 4.1; \<open>now\<close> is the instant the limiter read from the clock. The
  result is the decision and the bucket after the call.
\<close>

definition Allow :: "time \<Rightarrow> TokenBucket \<Rightarrow> bool \<times> TokenBucket" where
  "Allow now b =
     (let elapsed = of_int (now - lastRefillTime b) / 1000000000;
          refilled = min (of_int (capacity b)) (tokens b + elapsed * refillRatePerSecond b);
          b' = b\<lparr>tokens := refilled, lastRefillTime := now\<rparr>
      in if 1 \<le> refilled then (True, b'\<lparr>tokens := refilled - 1\<rparr>) else (False, b'))"

text \<open>
  The var block of \<^verbatim>\<open>middleware.go\<close> (lines 34 to 54) allocates four
  limiters when the package is initialised, and nothing else in the package allocates
  one. A value of type \<^verbatim>\<open>RateLimit\<close> (a \<^verbatim>\<open>*rate.Limiter\<close>) is
  therefore a pointer to one of these four objects: the constructor names the object
  pointed to, and equality of two values is equality of pointers.
\<close>

datatype RateLimit =
    RateLimitPublicAPI
  | RateLimitInternalAPI
  | RateLimitUserWebAPI
  | RateLimitStrictAPI

text \<open>
  The store of limiter objects: what each of the four pointers points to. It is the
  one piece of state that lives outside a middleware instance.
\<close>

type_synonym limiters = "RateLimit \<Rightarrow> TokenBucket"

text \<open>The store after package initialisation at instant \<open>t0\<close> (lines 38, 43, 48, 53).\<close>

fun init_limiters :: "time \<Rightarrow> limiters" where
  "init_limiters t0 RateLimitPublicAPI = NewLimiter 5000 100 t0"
| "init_limiters t0 RateLimitInternalAPI = NewLimiter 10000 200 t0"
| "init_limiters t0 RateLimitUserWebAPI = NewLimiter 300 30 t0"
| "init_limiters t0 RateLimitStrictAPI = NewLimiter 100 10 t0"

section \<open>Requests and responses\<close>

record Request =
  RemoteAddr :: string

text \<open>
  \<^verbatim>\<open>net.SplitHostPort\<close> of the Go standard library, which the handler calls on
  \<^verbatim>\<open>r.RemoteAddr\<close>: the port starts after the last colon; a host in square
  brackets ends at the first closing bracket, which must stand just before that colon;
  a host without brackets holds no colon; no other bracket may occur. \<open>None\<close> is
  a non-nil error.
\<close>

fun IndexByte :: "string \<Rightarrow> char \<Rightarrow> nat option" where
  "IndexByte [] c = None"
| "IndexByte (x # xs) c = (if x = c then Some 0 else map_option Suc (IndexByte xs c))"

definition LastIndexByte :: "string \<Rightarrow> char \<Rightarrow> nat option" where
  "LastIndexByte s c = map_option (\<lambda>k. length s - 1 - k) (IndexByte (rev s) c)"

definition SplitHostPort :: "string \<Rightarrow> (string \<times> string) option" where
  "SplitHostPort hostport =
     (case LastIndexByte hostport (CHR '':'') of
        None \<Rightarrow> None
      | Some i \<Rightarrow>
          (let checked = (\<lambda>host j k.
                 if IndexByte (drop j hostport) (CHR ''['') \<noteq> None then None
                 else if IndexByte (drop k hostport) (CHR '']'') \<noteq> None then None
                 else Some (host, drop (i + 1) hostport))
           in if take 1 hostport = ''[''
              then (case IndexByte hostport (CHR '']'') of
                      None \<Rightarrow> None
                    | Some e \<Rightarrow>
                        if e + 1 = i
                        then checked (take (e - 1) (drop 1 hostport)) 1 (e + 1)
                        else None)
              else if IndexByte (take i hostport) (CHR '':'') \<noteq> None then None
              else checked (take i hostport) 0 0))"

text \<open>
  The struct \<^verbatim>\<open>Message\<close> (lines 22 to 27), and the JSON object that
  \<^verbatim>\<open>encoding/json\<close> writes for it: one member per field, named by the
  field's tag, in the order of the fields.
\<close>

record Message =
  Status :: string
  Body :: string
  Locked :: bool
  Timestamp :: time

datatype json = JString string | JBool bool | JTime time

type_synonym json_object = "(string \<times> json) list"

definition Message_json :: "Message \<Rightarrow> json_object" where
  "Message_json m =
     [(''status'', JString (Status m)),
      (''body'', JString (Body m)),
      (''locked'', JBool (Locked m)),
      (''timestamp'', JTime (Timestamp m))]"

text \<open>
  \<^verbatim>\<open>http.ResponseWriter\<close> and the downstream \<^verbatim>\<open>http.Handler\<close> are
  interfaces of net/http. What a handler does with them is the sequence of calls it
  makes: setting a header field, \<^verbatim>\<open>w.WriteHeader(code)\<close>, writing a JSON
  document to \<^verbatim>\<open>w\<close> through \<^verbatim>\<open>json.NewEncoder(w).Encode\<close>, and
  \<^verbatim>\<open>next.ServeHTTP(w, r)\<close>.
\<close>

datatype call =
    HeaderAdd string string
  | WriteHeader nat
  | Encode json_object
  | ServeNext Request

definition StatusInternalServerError :: nat where
  "StatusInternalServerError = 500"

definition StatusTooManyRequests :: nat where
  "StatusTooManyRequests = 429"

text \<open>
  \<^verbatim>\<open>writeJSON\<close>, the helper every other JSON response of the package goes
  through: it declares the content type, writes the status and encodes the document.
\<close>

definition writeJSON :: "nat \<Rightarrow> json_object \<Rightarrow> call list" where
  "writeJSON status v = [HeaderAdd ''Content-Type'' ''application/json'', WriteHeader status, Encode v]"

section \<open>The rate-limiting middleware\<close>

text \<open>
  The local type \<^verbatim>\<open>client\<close> (lines 207 to 210). Its \<open>limiter\<close> is a
  pointer. The map holds pointers to clients, but each is reachable through its map
  entry only, so the map holds the struct itself here.
\<close>

record client =
  limiter :: RateLimit
  lastSeen :: time

text \<open>
  What the closure returned by \<^verbatim>\<open>rateLimiterMiddleware\<close> captures: the
  pointer \<open>rateLimit\<close> it was given and its own map \<open>clients\<close>. The mutex
  \<open>mu\<close> is held around every access to the map, so each of the two locked regions
  (the sweep pass, and lines 237 to 256 of the handler) is one step of the model. The
  handler \<open>next\<close> occurs only as the target of the call \<open>ServeNext\<close>.
\<close>

record middleware =
  rateLimit :: RateLimit
  clients :: "string \<rightharpoonup> client"

definition rateLimiterMiddleware :: "RateLimit \<Rightarrow> middleware" where
  "rateLimiterMiddleware rl = \<lparr>rateLimit = rl, clients = Map.empty\<rparr>"

definition RateLimitPublic :: middleware where
  "RateLimitPublic = rateLimiterMiddleware RateLimitPublicAPI"

definition RateLimitInternal :: middleware where
  "RateLimitInternal = rateLimiterMiddleware RateLimitInternalAPI"

definition RateLimitWeb :: middleware where
  "RateLimitWeb = rateLimiterMiddleware RateLimitUserWebAPI"

definition RateLimitStrict :: middleware where
  "RateLimitStrict = rateLimiterMiddleware RateLimitStrictAPI"

text \<open>
  The three readings of the clock one request makes: for \<open>lastSeen\<close> (line 241),
  inside \<open>Allow\<close> (line 242) and for the time stamp of the message (line 249).
\<close>

record clock =
  seen_at :: time
  allow_at :: time
  message_at :: time

definition instant :: "time \<Rightarrow> clock" where
  "instant t = \<lparr>seen_at = t, allow_at = t, message_at = t\<rparr>"

text \<open>
  The locked region of the handler up to the decision (lines 237 to 242): look the
  identity up, store a new client holding the pointer \<open>rateLimit\<close> when there is
  none, set its \<open>lastSeen\<close>, and ask the limiter its client points to.
\<close>

definition admit :: "clock \<Rightarrow> string \<Rightarrow> middleware \<times> limiters \<Rightarrow> bool \<times> middleware \<times> limiters" where
  "admit clk ip s =
     (case s of (mw, ls) \<Rightarrow>
        (let c = (case clients mw ip of
                    None \<Rightarrow> \<lparr>limiter = rateLimit mw, lastSeen = 0\<rparr>
                  | Some c \<Rightarrow> c);
             c' = c\<lparr>lastSeen := seen_at clk\<rparr>;
             mw' = mw\<lparr>clients := (clients mw)(ip \<mapsto> c')\<rparr>;
             (ok, b') = Allow (allow_at clk) (ls (limiter c'))
         in (ok, mw', ls(limiter c' := b'))))"

text \<open>The value of the local variable \<open>message\<close> (lines 245 to 250).\<close>

definition message :: "time \<Rightarrow> Message" where
  "message t =
     \<lparr>Status = ''Request Failed'',
      Body = ''Rate limit reached. Please wait 5 minutes and try again.'',
      Locked = True,
      Timestamp = t\<rparr>"

text \<open>The handler (lines 229 to 258): the calls it makes, and the state it leaves.\<close>

definition ServeHTTP :: "clock \<Rightarrow> Request \<Rightarrow> middleware \<times> limiters \<Rightarrow> call list \<times> middleware \<times> limiters" where
  "ServeHTTP clk r s =
     (case SplitHostPort (RemoteAddr r) of
        None \<Rightarrow> ([WriteHeader StatusInternalServerError], s)
      | Some (ip, port) \<Rightarrow>
          (case admit clk ip s of (ok, s') \<Rightarrow>
             if \<not> ok
             then ([WriteHeader StatusTooManyRequests,
                    Encode (Message_json (message (message_at clk)))], s')
             else ([ServeNext r], s')))"

text \<open>
  One pass of the sweeper (lines 219 to 225). \<open>ips\<close> is the order in which
  \<^verbatim>\<open>range\<close> visits the keys (Go leaves it open), and \<open>nowAt ip\<close> the
  reading of the clock that \<^verbatim>\<open>time.Since\<close> makes when the entry of
  \<open>ip\<close> is visited. A key deleted before it is reached is not visited.
\<close>

fun range_delete :: "(string \<Rightarrow> time) \<Rightarrow> string list \<Rightarrow> (string \<rightharpoonup> client) \<Rightarrow> (string \<rightharpoonup> client)" where
  "range_delete nowAt [] cl = cl"
| "range_delete nowAt (ip # ips) cl =
     range_delete nowAt ips
       (case cl ip of
          None \<Rightarrow> cl
        | Some c \<Rightarrow> if Since (nowAt ip) (lastSeen c) > 5 * Minute then cl(ip := None) else cl)"

definition sweep :: "(string \<Rightarrow> time) \<Rightarrow> string list \<Rightarrow> middleware \<Rightarrow> middleware" where
  "sweep nowAt ips mw = mw\<lparr>clients := range_delete nowAt ips (clients mw)\<rparr>"

text \<open>
  The handler and the sweeper share the map, and each touches it only while it holds the
  mutex. A history of one middleware instance lists the requests served and the sweep
  passes made, in the order in which they took the mutex. \<open>run\<close> gives the calls each
  event made (none for a sweep pass) and the state after the last one.
\<close>

datatype event =
    Serve clock Request
  | Sweep "string \<Rightarrow> time" "string list"

fun step :: "event \<Rightarrow> middleware \<times> limiters \<Rightarrow> call list \<times> middleware \<times> limiters" where
  "step (Serve clk r) s = ServeHTTP clk r s"
| "step (Sweep nowAt ips) (mw, ls) = ([], sweep nowAt ips mw, ls)"

fun run :: "event list \<Rightarrow> middleware \<times> limiters \<Rightarrow> call list list \<times> middleware \<times> limiters" where
  "run [] s = ([], s)"
| "run (e # es) s =
     (case step e s of (out, s') \<Rightarrow>
        (case run es s' of (outs, s'') \<Rightarrow> (out # outs, s'')))"

subsection \<open>The sweeper goroutine\<close>

text \<open>
  \<^verbatim>\<open>time.Sleep(d)\<close> pauses the goroutine for at least \<open>d\<close>, and returns at once
  when \<open>d\<close> is not positive. Its result here is the instant at which it returns:
  \<open>now\<close> is the instant of the call and \<open>over\<close> the time by which the runtime
  overslept.
\<close>

definition Sleep :: "duration \<Rightarrow> duration \<Rightarrow> time \<Rightarrow> time" where
  "Sleep d over now = (if d \<le> 0 then now else now + d + over)"

text \<open>
  What the surroundings contribute to one iteration of the loop of lines 216 to 226:
  the requests the handler serves before the pass of this iteration takes the mutex
  (since the pass before), by how much \<^verbatim>\<open>time.Sleep\<close> oversleeps, the order in
  which \<^verbatim>\<open>range\<close> visits the keys, how long after the return of
  \<^verbatim>\<open>time.Sleep\<close> the clock is read for each entry (the wait for the mutex is
  part of it), and how long after that return the goroutine is back at the head of the
  loop.
\<close>

record iteration =
  served :: "(clock \<times> Request) list"
  late :: duration
  visited :: "string list"
  reads :: "string \<Rightarrow> duration"
  took :: duration

text \<open>
  What the goroutine did in one iteration: the instant at which
  \<^verbatim>\<open>time.Sleep\<close> returned, the handler's state when the pass took the mutex and
  its state when the pass released it.
\<close>

record pass =
  woke :: time
  before :: middleware
  after :: middleware

definition requests :: "(clock \<times> Request) list \<Rightarrow> event list" where
  "requests rs = map (\<lambda>(clk, r). Serve clk r) rs"

text \<open>
  The goroutine that \<^verbatim>\<open>rateLimiterMiddleware\<close> starts (lines 215 to 227):
  \<^verbatim>\<open>for { time.Sleep(time.Minute); mu.Lock(); ...; mu.Unlock() }\<close>. The loop has
  no exit, so it is run on fuel: one element of the list for each iteration, and the
  goroutine is still running when the list is used up. \<open>b\<close> is the instant at which
  the iteration begins (for the first one, the instant at which the goroutine was
  started). Each iteration sleeps for \<^verbatim>\<open>time.Minute\<close>, makes one pass over the
  map as the handler has left it by then, and begins the next iteration.
\<close>

fun sweeper :: "iteration list \<Rightarrow> time \<Rightarrow> middleware \<times> limiters \<Rightarrow> pass list \<times> middleware \<times> limiters" where
  "sweeper [] b s = ([], s)"
| "sweeper (it # its) b s =
     (case run (requests (served it)) s of (outs, mw, ls) \<Rightarrow>
        (let w = Sleep Minute (late it) b;
             mw' = sweep (\<lambda>ip. w + reads it ip) (visited it) mw
         in case sweeper its (w + took it) (mw', ls) of (ps, s') \<Rightarrow>
              (\<lparr>woke = w, before = mw, after = mw'\<rparr> # ps, s')))"

section \<open>Notions the properties are stated with\<close>

text \<open>The requests a sequence of calls hands to the downstream handler, in order.\<close>

fun next_calls :: "call list \<Rightarrow> Request list" where
  "next_calls [] = []"
| "next_calls (ServeNext r # cs) = r # next_calls cs"
| "next_calls (c # cs) = next_calls cs"

text \<open>
  The limiter the handler asks on behalf of identity \<open>ip\<close>: the one its entry points
  to, or the one the entry it is about to store will point to.
\<close>

definition limiter_of :: "middleware \<Rightarrow> string \<Rightarrow> RateLimit" where
  "limiter_of mw ip = (case clients mw ip of None \<Rightarrow> rateLimit mw | Some c \<Rightarrow> limiter c)"

text \<open>The calls of a rejection whose message is stamped \<open>t\<close> (lines 252 and 253).\<close>

definition rejected_at :: "time \<Rightarrow> call list" where
  "rejected_at t = [WriteHeader StatusTooManyRequests, Encode (Message_json (message t))]"

text \<open>
  Handler \<open>mw\<close> was given the pointer \<open>p\<close>, and every entry of its map holds
  that same pointer.
\<close>

definition holds_only :: "RateLimit \<Rightarrow> middleware \<Rightarrow> bool" where
  "holds_only p mw \<longleftrightarrow> rateLimit mw = p \<and> (\<forall>ip c. clients mw ip = Some c \<longrightarrow> limiter c = p)"

section \<open>Several handlers in one process\<close>

text \<open>
  Every call of \<^verbatim>\<open>rateLimiterMiddleware\<close> returns a handler with a map (and a
  sweeper) of its own; the limiter objects are package-level and common to all of them.
  A process is the family of its handlers, numbered, and the one store of limiters. A
  history tags each event with the number of the handler it belongs to.
\<close>

type_synonym process = "(nat \<Rightarrow> middleware) \<times> limiters"

fun process_step :: "nat \<times> event \<Rightarrow> process \<Rightarrow> call list \<times> process" where
  "process_step (i, e) (ms, ls) =
     (case step e (ms i, ls) of (out, m', ls') \<Rightarrow> (out, ms(i := m'), ls'))"

fun process_run :: "(nat \<times> event) list \<Rightarrow> process \<Rightarrow> call list list \<times> process" where
  "process_run [] w = ([], w)"
| "process_run (e # es) w =
     (case process_step e w of (out, w') \<Rightarrow>
        (case process_run es w' of (outs, w'') \<Rightarrow> (out # outs, w'')))"

section \<open>Requests and states used as examples\<close>

definition reqA :: Request where
  "reqA = \<lparr>RemoteAddr = ''1.2.3.4:5000''\<rparr>"

definition reqB :: Request where
  "reqB = \<lparr>RemoteAddr = ''5.6.7.8:6000''\<rparr>"

definition portless :: Request where
  "portless = \<lparr>RemoteAddr = ''1.2.3.4''\<rparr>"

text \<open>The store in which the strict limiter was emptied at instant \<open>t\<close>.\<close>

definition drained :: "time \<Rightarrow> limiters" where
  "drained t = (init_limiters 0)(RateLimitStrictAPI := (NewLimiter 100 10 t)\<lparr>tokens := 0\<rparr>)"

text \<open>A strict handler that has seen three clients, at 0, 60 and 200 seconds.\<close>

definition three_clients :: middleware where
  "three_clients =
     \<lparr>rateLimit = RateLimitStrictAPI,
      clients = [''1.2.3.4'' \<mapsto> \<lparr>limiter = RateLimitStrictAPI, lastSeen = 0\<rparr>,
                 ''5.6.7.8'' \<mapsto> \<lparr>limiter = RateLimitStrictAPI, lastSeen = 60000000000\<rparr>,
                 ''9.9.9.9'' \<mapsto> \<lparr>limiter = RateLimitStrictAPI, lastSeen = 200000000000\<rparr>]\<rparr>"

text \<open>
  Six iterations of the sweeper of a strict handler started at instant 0, with a
  runtime that never oversleeps and passes that take no time. Before the first pass
  the handler serves client A at 30 seconds and client B at 60 seconds, which leaves the
  handler \<open>two_clients\<close>.
\<close>

definition two_clients :: middleware where
  "two_clients =
     \<lparr>rateLimit = RateLimitStrictAPI,
      clients = [''1.2.3.4'' \<mapsto> \<lparr>limiter = RateLimitStrictAPI, lastSeen = 30000000000\<rparr>,
                 ''5.6.7.8'' \<mapsto> \<lparr>limiter = RateLimitStrictAPI, lastSeen = 60000000000\<rparr>]\<rparr>"

definition exact_iteration :: "(clock \<times> Request) list \<Rightarrow> iteration" where
  "exact_iteration rs =
     \<lparr>served = rs, late = 0, visited = [''5.6.7.8'', ''1.2.3.4''], reads = (\<lambda>ip. 0), took = 0\<rparr>"

definition six_minutes :: "iteration list" where
  "six_minutes =
     exact_iteration [(instant (30 * Second), reqA), (instant Minute, reqB)]
     # replicate 5 (exact_iteration [])"

text \<open>
  Two handlers built by \<^verbatim>\<open>RateLimitStrict\<close>; ten requests of one client reach
  the first of them at instant 0. \<open>after_ten\<close> is the family of handlers this leaves.
\<close>

definition ten_on_first :: "(nat \<times> event) list" where
  "ten_on_first = replicate 10 (0, Serve (instant 0) reqA)"

definition after_ten :: "nat \<Rightarrow> middleware" where
  "after_ten = (\<lambda>i. rateLimiterMiddleware RateLimitStrictAPI)
     (0 := \<lparr>rateLimit = RateLimitStrictAPI,
            clients = [''1.2.3.4'' \<mapsto> \<lparr>limiter = RateLimitStrictAPI, lastSeen = 0\<rparr>]\<rparr>)"

text \<open>
  Histories of one strict handler. In the first, client A sends ten requests at instant
  0 and client B then sends its first request at the same instant. In the second, A
  sends one request at instant 0 and is swept after six minutes; one second later B
  sends ten requests and A comes back. In the third, at one second, B sends four
  requests and A, not seen before, sends eleven.
\<close>

definition exhaust_then_other :: "event list" where
  "exhaust_then_other = replicate 10 (Serve (instant 0) reqA) @ [Serve (instant 0) reqB]"

definition idle_then_back :: "event list" where
  "idle_then_back =
     [Serve (instant 0) reqA, Sweep (\<lambda>ip. 6 * Minute) [''1.2.3.4'']]
     @ replicate 10 (Serve (instant (6 * Minute + Second)) reqB)
     @ [Serve (instant (6 * Minute + Second)) reqA]"

definition burst_after_other :: "event list" where
  "burst_after_other =
     replicate 4 (Serve (instant Second) reqB) @ replicate 11 (Serve (instant Second) reqA)"

section \<open>Basic facts\<close>

lemma Since_idle_iff: "Since now t > 5 * Minute \<longleftrightarrow> now - t > 300000000000"
  by (simp add: Since_def Sub_def Minute_def Second_def maxDuration_def minDuration_def)

lemma client_touch: "(c::client)\<lparr>lastSeen := t\<rparr> = \<lparr>limiter = limiter c, lastSeen = t\<rparr>"
  by (cases c) simp

lemma admit_eq:
  "admit clk ip (mw, ls) =
     (fst (Allow (allow_at clk) (ls (limiter_of mw ip))),
      mw\<lparr>clients := (clients mw)(ip \<mapsto> \<lparr>limiter = limiter_of mw ip, lastSeen = seen_at clk\<rparr>)\<rparr>,
      ls(limiter_of mw ip := snd (Allow (allow_at clk) (ls (limiter_of mw ip)))))"
  by (simp add: admit_def limiter_of_def Let_def client_touch split: option.split prod.split)

lemma ServeHTTP_None:
  "SplitHostPort (RemoteAddr r) = None \<Longrightarrow>
   ServeHTTP clk r s = ([WriteHeader StatusInternalServerError], s)"
  by (simp add: ServeHTTP_def)

lemma ServeHTTP_Some:
  "SplitHostPort (RemoteAddr r) = Some (ip, port) \<Longrightarrow>
   ServeHTTP clk r (mw, ls) =
     (if fst (Allow (allow_at clk) (ls (limiter_of mw ip)))
      then [ServeNext r]
      else [WriteHeader StatusTooManyRequests, Encode (Message_json (message (message_at clk)))],
      mw\<lparr>clients := (clients mw)(ip \<mapsto> \<lparr>limiter = limiter_of mw ip, lastSeen = seen_at clk\<rparr>)\<rparr>,
      ls(limiter_of mw ip := snd (Allow (allow_at clk) (ls (limiter_of mw ip)))))"
  by (simp add: ServeHTTP_def admit_eq)

subsection \<open>The sweep pass, key by key\<close>

lemma range_delete_absent: "cl ip = None \<Longrightarrow> range_delete nowAt ips cl ip = None"
  by (induction ips arbitrary: cl) (auto split: option.split)

lemma range_delete_other:
  "k \<noteq> ip \<Longrightarrow>
   (case cl k of None \<Rightarrow> cl
    | Some c \<Rightarrow> if Since (nowAt k) (lastSeen c) > 5 * Minute then cl(k := None) else cl) ip = cl ip"
  by (simp split: option.split)

lemma range_delete_lookup:
  "range_delete nowAt ips cl ip =
     (case cl ip of
        None \<Rightarrow> None
      | Some c \<Rightarrow> if ip \<in> set ips \<and> Since (nowAt ip) (lastSeen c) > 5 * Minute then None else Some c)"
proof (induction ips arbitrary: cl)
  case Nil
  show ?case by (simp split: option.split)
next
  case (Cons k ks)
  let ?cl' = "case cl k of None \<Rightarrow> cl
    | Some c \<Rightarrow> if Since (nowAt k) (lastSeen c) > 5 * Minute then cl(k := None) else cl"
  have unfold: "range_delete nowAt (k # ks) cl ip = range_delete nowAt ks ?cl' ip"
    by simp
  show ?case
  proof (cases "k = ip")
    case True
    show ?thesis
    proof (cases "cl ip")
      case None
      with \<open>k = ip\<close> show ?thesis by (simp add: range_delete_absent)
    next
      case (Some c)
      show ?thesis
      proof (cases "Since (nowAt ip) (lastSeen c) > 5 * Minute")
        case True
        with Some \<open>k = ip\<close> show ?thesis by (simp add: range_delete_absent)
      next
        case False
        with Some \<open>k = ip\<close> have "?cl' = cl" by simp
        with Cons.IH [of cl] Some False unfold show ?thesis by simp
      qed
    qed
  next
    case False
    then have "?cl' ip = cl ip" by (rule range_delete_other)
    moreover from False have "ip \<noteq> k" by blast
    moreover have "(ip \<in> set (k # ks)) = (ip \<in> set ks)"
      using \<open>ip \<noteq> k\<close> by simp
    ultimately show ?thesis using Cons.IH [of ?cl'] unfold by presburger
  qed
qed

lemma sweep_lookup:
  "clients (sweep nowAt ips mw) ip =
     (case clients mw ip of
        None \<Rightarrow> None
      | Some c \<Rightarrow> if ip \<in> set ips \<and> nowAt ip - lastSeen c > 300000000000 then None else Some c)"
  by (simp add: sweep_def range_delete_lookup Since_idle_iff split: option.split)

lemma five_minutes: "5 * Minute = 300000000000"
  by (simp add: Minute_def Second_def)

subsection \<open>The example requests\<close>

lemma split_reqA: "SplitHostPort (RemoteAddr reqA) = Some (''1.2.3.4'', ''5000'')"
  by (simp add: reqA_def SplitHostPort_def LastIndexByte_def)

lemma split_reqB: "SplitHostPort (RemoteAddr reqB) = Some (''5.6.7.8'', ''6000'')"
  by (simp add: reqB_def SplitHostPort_def LastIndexByte_def)

lemma split_portless: "SplitHostPort (RemoteAddr portless) = None"
  by (simp add: portless_def SplitHostPort_def LastIndexByte_def)

section \<open>Requests without an identity\<close>

text \<open>
  Claim C7. When \<^verbatim>\<open>RemoteAddr\<close> cannot be split into host and port, the handler
  makes exactly one call, \<^verbatim>\<open>WriteHeader(500)\<close>: a server-side error status,
  different from the 429 of a rate-limit rejection. The downstream handler is not
  called, and the state is the one before the request: the map of clients has no new
  or changed entry and no limiter has been asked, so no token is spent.
\<close>

theorem unsplittable_RemoteAddr_fails:
  assumes "SplitHostPort (RemoteAddr r) = None"
  shows "ServeHTTP clk r (mw, ls) = ([WriteHeader StatusInternalServerError], mw, ls)
         \<and> StatusInternalServerError = 500
         \<and> StatusInternalServerError \<noteq> StatusTooManyRequests
         \<and> next_calls (fst (ServeHTTP clk r (mw, ls))) = []"
  using assms
  by (simp add: ServeHTTP_None StatusInternalServerError_def StatusTooManyRequests_def)

theorem unsplittable_RemoteAddr_fails_witness:
  "SplitHostPort (RemoteAddr portless) = None
   \<and> ServeHTTP (instant 7) portless (three_clients, init_limiters 0)
       = ([WriteHeader 500], three_clients, init_limiters 0)"
proof -
  from unsplittable_RemoteAddr_fails [OF split_portless, of "instant 7" three_clients "init_limiters 0"]
  show ?thesis by (simp add: split_portless)
qed

section \<open>Forwarding and rejecting\<close>

text \<open>
  Claim C10. For a request whose \<^verbatim>\<open>RemoteAddr\<close> splits into host \<open>ip\<close> and a
  port, the handler asks the limiter of \<open>ip\<close>'s entry. If it grants a token, the
  handler makes exactly one call, \<^verbatim>\<open>next.ServeHTTP(w, r)\<close>, with the request it
  was given, and writes nothing to the response itself: the response is what
  \<open>next\<close> makes of it. If it grants none, the handler writes status 429 and the
  message and never calls \<open>next\<close>.
\<close>

theorem next_called_iff_token_granted:
  assumes "SplitHostPort (RemoteAddr r) = Some (ip, port)"
  shows "(fst (Allow (allow_at clk) (ls (limiter_of mw ip))) \<longrightarrow>
            fst (ServeHTTP clk r (mw, ls)) = [ServeNext r]
            \<and> next_calls (fst (ServeHTTP clk r (mw, ls))) = [r])
       \<and> (\<not> fst (Allow (allow_at clk) (ls (limiter_of mw ip))) \<longrightarrow>
            fst (ServeHTTP clk r (mw, ls)) =
              [WriteHeader StatusTooManyRequests, Encode (Message_json (message (message_at clk)))]
            \<and> next_calls (fst (ServeHTTP clk r (mw, ls))) = [])"
  using assms by (simp add: ServeHTTP_Some)

theorem next_called_iff_token_granted_witness:
  "SplitHostPort (RemoteAddr reqA) = Some (''1.2.3.4'', ''5000'')
   \<and> fst (Allow 0 (init_limiters 0 (limiter_of RateLimitStrict ''1.2.3.4'')))
   \<and> fst (ServeHTTP (instant 0) reqA (RateLimitStrict, init_limiters 0)) = [ServeNext reqA]
   \<and> \<not> fst (Allow 0 (drained 0 (limiter_of RateLimitStrict ''1.2.3.4'')))
   \<and> fst (ServeHTTP (instant 0) reqA (RateLimitStrict, drained 0))
        = [WriteHeader 429,
           Encode [(''status'', JString ''Request Failed''),
                   (''body'', JString ''Rate limit reached. Please wait 5 minutes and try again.''),
                   (''locked'', JBool True),
                   (''timestamp'', JTime 0)]]"
proof -
  have granted: "fst (Allow 0 (init_limiters 0 (limiter_of RateLimitStrict ''1.2.3.4'')))"
    by (simp add: limiter_of_def RateLimitStrict_def rateLimiterMiddleware_def Allow_def NewLimiter_def)
  have refused: "\<not> fst (Allow 0 (drained 0 (limiter_of RateLimitStrict ''1.2.3.4'')))"
    by (simp add: limiter_of_def RateLimitStrict_def rateLimiterMiddleware_def Allow_def
        NewLimiter_def drained_def)
  from next_called_iff_token_granted [OF split_reqA, of "instant 0" "init_limiters 0" RateLimitStrict]
       next_called_iff_token_granted [OF split_reqA, of "instant 0" "drained 0" RateLimitStrict]
       granted refused
  show ?thesis
    by (simp add: split_reqA instant_def StatusTooManyRequests_def Message_json_def message_def)
qed

section \<open>The sweep pass\<close>

text \<open>
  A sweep pass that visits every key of the map removes exactly the entries whose
  \<open>lastSeen\<close> lies more than five minutes before the reading of the clock made for
  them: such an entry is gone after the pass, every other entry is still there and
  unchanged, and no entry appears.
\<close>

lemma pass_removes_exactly_the_idle:
  assumes "dom (clients mw) \<subseteq> set ips"
  shows "(\<forall>ip c. clients mw ip = Some c \<and> nowAt ip - lastSeen c > 5 * Minute
            \<longrightarrow> clients (sweep nowAt ips mw) ip = None)
       \<and> (\<forall>ip c. clients mw ip = Some c \<and> nowAt ip - lastSeen c \<le> 5 * Minute
            \<longrightarrow> clients (sweep nowAt ips mw) ip = Some c)
       \<and> (\<forall>ip. clients mw ip = None \<longrightarrow> clients (sweep nowAt ips mw) ip = None)
       \<and> rateLimit (sweep nowAt ips mw) = rateLimit mw"
proof -
  have "ip \<in> set ips" if "clients mw ip = Some c" for ip c
    using that assms by blast
  then show ?thesis
    by (simp add: sweep_lookup five_minutes) (simp add: sweep_def)
qed

lemma pass_removes_exactly_the_idle_example:
  "dom (clients three_clients) \<subseteq> set [''9.9.9.9'', ''1.2.3.4'', ''5.6.7.8'']
   \<and> clients (sweep (\<lambda>ip. 6 * Minute) [''9.9.9.9'', ''1.2.3.4'', ''5.6.7.8''] three_clients) ''1.2.3.4''
       = None
   \<and> clients (sweep (\<lambda>ip. 6 * Minute) [''9.9.9.9'', ''1.2.3.4'', ''5.6.7.8''] three_clients) ''5.6.7.8''
       = Some \<lparr>limiter = RateLimitStrictAPI, lastSeen = 60000000000\<rparr>
   \<and> clients (sweep (\<lambda>ip. 6 * Minute) [''9.9.9.9'', ''1.2.3.4'', ''5.6.7.8''] three_clients) ''9.9.9.9''
       = Some \<lparr>limiter = RateLimitStrictAPI, lastSeen = 200000000000\<rparr>
   \<and> clients (sweep (\<lambda>ip. 6 * Minute) [''9.9.9.9'', ''1.2.3.4'', ''5.6.7.8''] three_clients) ''7.7.7.7''
       = None"
proof -
  have h: "dom (clients three_clients) \<subseteq> set [''9.9.9.9'', ''1.2.3.4'', ''5.6.7.8'']"
    by (simp add: three_clients_def)
  have a: "clients three_clients ''1.2.3.4'' = Some \<lparr>limiter = RateLimitStrictAPI, lastSeen = 0\<rparr>"
    and b: "clients three_clients ''5.6.7.8'' = Some \<lparr>limiter = RateLimitStrictAPI, lastSeen = 60000000000\<rparr>"
    and c: "clients three_clients ''9.9.9.9'' = Some \<lparr>limiter = RateLimitStrictAPI, lastSeen = 200000000000\<rparr>"
    and d: "clients three_clients ''7.7.7.7'' = None"
    by (simp_all add: three_clients_def)
  note t = pass_removes_exactly_the_idle [OF h, of "\<lambda>ip. 6 * Minute"]
  have "clients (sweep (\<lambda>ip. 6 * Minute) [''9.9.9.9'', ''1.2.3.4'', ''5.6.7.8''] three_clients) ''1.2.3.4''
       = None"
    using t a by (simp add: Minute_def Second_def)
  moreover have "clients (sweep (\<lambda>ip. 6 * Minute) [''9.9.9.9'', ''1.2.3.4'', ''5.6.7.8''] three_clients) ''5.6.7.8''
       = Some \<lparr>limiter = RateLimitStrictAPI, lastSeen = 60000000000\<rparr>"
    using t b by (simp add: Minute_def Second_def)
  moreover have "clients (sweep (\<lambda>ip. 6 * Minute) [''9.9.9.9'', ''1.2.3.4'', ''5.6.7.8''] three_clients) ''9.9.9.9''
       = Some \<lparr>limiter = RateLimitStrictAPI, lastSeen = 200000000000\<rparr>"
    using t c by (simp add: Minute_def Second_def)
  moreover have "clients (sweep (\<lambda>ip. 6 * Minute) [''9.9.9.9'', ''1.2.3.4'', ''5.6.7.8''] three_clients) ''7.7.7.7''
       = None"
    using t d by simp
  ultimately show ?thesis using h by simp
qed

subsection \<open>The loop of the sweeper\<close>

lemma Sleep_Minute: "Sleep Minute over now = now + Minute + over"
  by (simp add: Sleep_def Minute_def Second_def)

lemma sweeper_Cons:
  "sweeper (it # its) b s =
     (\<lparr>woke = b + Minute + late it,
       before = fst (snd (run (requests (served it)) s)),
       after = sweep (\<lambda>ip. b + Minute + late it + reads it ip) (visited it)
                 (fst (snd (run (requests (served it)) s)))\<rparr>
      # fst (sweeper its (b + Minute + late it + took it)
             (sweep (\<lambda>ip. b + Minute + late it + reads it ip) (visited it)
                 (fst (snd (run (requests (served it)) s))),
              snd (snd (run (requests (served it)) s)))),
      snd (sweeper its (b + Minute + late it + took it)
             (sweep (\<lambda>ip. b + Minute + late it + reads it ip) (visited it)
                 (fst (snd (run (requests (served it)) s))),
              snd (snd (run (requests (served it)) s)))))"
  by (simp add: Sleep_Minute Let_def split: prod.split)

lemma sweeper_length: "length (fst (sweeper its b s)) = length its"
  by (induction its arbitrary: b s) (simp_all add: sweeper_Cons del: sweeper.simps(2))

lemma sweeper_first:
  "its \<noteq> [] \<Longrightarrow> woke (fst (sweeper its b s) ! 0) = b + Minute + late (its ! 0)"
  by (cases its) (simp_all add: sweeper_Cons del: sweeper.simps(2))

lemma sweeper_next:
  "Suc j < length its \<Longrightarrow>
   woke (fst (sweeper its b s) ! Suc j)
     = woke (fst (sweeper its b s) ! j) + took (its ! j) + Minute + late (its ! Suc j)"
proof (induction its arbitrary: b s j)
  case Nil
  then show ?case by simp
next
  case (Cons it its)
  show ?case
  proof (cases j)
    case 0
    with Cons.prems have "its \<noteq> []" by auto
    then show ?thesis
      using 0 by (simp add: sweeper_Cons sweeper_first del: sweeper.simps(2))
  next
    case (Suc j')
    with Cons.prems have "Suc j' < length its" by simp
    from Cons.IH [OF this] Suc show ?thesis
      by (simp add: sweeper_Cons del: sweeper.simps(2))
  qed
qed

lemma sweeper_pass:
  "k < length its \<Longrightarrow>
   after (fst (sweeper its b s) ! k)
     = sweep (\<lambda>ip. woke (fst (sweeper its b s) ! k) + reads (its ! k) ip) (visited (its ! k))
         (before (fst (sweeper its b s) ! k))"
proof (induction its arbitrary: b s k)
  case Nil
  then show ?case by simp
next
  case (Cons it its)
  show ?case
  proof (cases k)
    case 0
    then show ?thesis by (simp add: sweeper_Cons del: sweeper.simps(2))
  next
    case (Suc k')
    with Cons.prems have "k' < length its" by simp
    from Cons.IH [OF this] Suc show ?thesis
      by (simp add: sweeper_Cons del: sweeper.simps(2))
  qed
qed

lemma sweeper_before_first:
  "its \<noteq> [] \<Longrightarrow>
   before (fst (sweeper its b s) ! 0) = fst (snd (run (requests (served (its ! 0))) s))"
  by (cases its) (simp_all add: sweeper_Cons del: sweeper.simps(2))

lemma sweeper_before_next:
  "Suc j < length its \<Longrightarrow>
   \<exists>ls. before (fst (sweeper its b s) ! Suc j)
     = fst (snd (run (requests (served (its ! Suc j))) (after (fst (sweeper its b s) ! j), ls)))"
proof (induction its arbitrary: b s j)
  case Nil
  then show ?case by simp
next
  case (Cons it its)
  show ?case
  proof (cases j)
    case 0
    with Cons.prems have "its \<noteq> []" by auto
    then show ?thesis
      using 0 by (auto simp add: sweeper_Cons sweeper_before_first simp del: sweeper.simps(2))
  next
    case (Suc j')
    with Cons.prems have "Suc j' < length its" by simp
    from Cons.IH [OF this] Suc show ?thesis
      by (simp add: sweeper_Cons del: sweeper.simps(2))
  qed
qed

lemma sweeper_on_the_minute:
  "k < length its \<Longrightarrow> \<forall>i\<le>k. late (its ! i) = 0 \<and> took (its ! i) = 0 \<Longrightarrow>
   woke (fst (sweeper its b s) ! k) = b + (int k + 1) * Minute"
proof (induction k)
  case 0
  then have "its \<noteq> []" by auto
  with 0 show ?case by (simp add: sweeper_first)
next
  case (Suc k)
  then have "woke (fst (sweeper its b s) ! k) = b + (int k + 1) * Minute"
    by simp
  moreover have "late (its ! Suc k) = 0" and "took (its ! k) = 0"
    using Suc.prems(2) by simp_all
  ultimately show ?case
    using sweeper_next [OF Suc.prems(1), of b s] by (simp add: algebra_simps)
qed

text \<open>
  Claim C8. Run the sweeper for any number of iterations, whatever the handler serves
  in between. It makes one pass in each iteration and none stops it: there are as many
  passes as iterations. The passes come once per minute: the first begins when
  \<^verbatim>\<open>time.Sleep(time.Minute)\<close> returns, one minute (and what the runtime
  overslept) after the goroutine was started, and each later one a minute (and what
  the runtime overslept) after the pass before it was over; with a runtime that never
  oversleeps and passes that take no time, pass number \<open>k\<close> (counted from 0) begins
  \<open>k + 1\<close> minutes after the start. Each pass works on the map
  as the handler has left it since the pass before, and, visiting every key, removes
  exactly the entries whose \<open>lastSeen\<close> lies more than five minutes before the
  reading of the clock made for them; every other entry is still there and unchanged,
  and no entry appears.
\<close>

theorem sweeper_passes_every_minute_and_removes_exactly_the_idle:
  assumes "sweeper its b s = (ps, s')"
    and "k < length its"
    and "dom (clients (before (ps ! k))) \<subseteq> set (visited (its ! k))"
  shows "length ps = length its
       \<and> (k = 0 \<longrightarrow>
            woke (ps ! k) = b + Minute + late (its ! k)
            \<and> before (ps ! k) = fst (snd (run (requests (served (its ! k))) s)))
       \<and> (\<forall>j. k = Suc j \<longrightarrow>
            woke (ps ! k) = woke (ps ! j) + took (its ! j) + Minute + late (its ! k)
            \<and> (\<exists>ls. before (ps ! k)
                  = fst (snd (run (requests (served (its ! k))) (after (ps ! j), ls)))))
       \<and> ((\<forall>i\<le>k. late (its ! i) = 0 \<and> took (its ! i) = 0) \<longrightarrow>
            woke (ps ! k) = b + (int k + 1) * Minute)
       \<and> (\<forall>ip c. clients (before (ps ! k)) ip = Some c
                  \<and> woke (ps ! k) + reads (its ! k) ip - lastSeen c > 5 * Minute
            \<longrightarrow> clients (after (ps ! k)) ip = None)
       \<and> (\<forall>ip c. clients (before (ps ! k)) ip = Some c
                  \<and> woke (ps ! k) + reads (its ! k) ip - lastSeen c \<le> 5 * Minute
            \<longrightarrow> clients (after (ps ! k)) ip = Some c)
       \<and> (\<forall>ip. clients (before (ps ! k)) ip = None \<longrightarrow> clients (after (ps ! k)) ip = None)
       \<and> rateLimit (after (ps ! k)) = rateLimit (before (ps ! k))"
proof -
  have ps: "ps = fst (sweeper its b s)"
    using assms(1) by simp
  have len: "length ps = length its"
    unfolding ps by (rule sweeper_length)
  have first: "woke (ps ! k) = b + Minute + late (its ! k)
      \<and> before (ps ! k) = fst (snd (run (requests (served (its ! k))) s))" if "k = 0"
  proof -
    from that assms(2) have "its \<noteq> []" by auto
    then show ?thesis
      unfolding ps that by (simp add: sweeper_first sweeper_before_first)
  qed
  have later: "woke (ps ! k) = woke (ps ! j) + took (its ! j) + Minute + late (its ! k)
      \<and> (\<exists>ls. before (ps ! k)
            = fst (snd (run (requests (served (its ! k))) (after (ps ! j), ls))))" if "k = Suc j" for j
  proof -
    from that assms(2) have "Suc j < length its" by simp
    then show ?thesis
      unfolding ps that by (simp add: sweeper_next sweeper_before_next)
  qed
  have exact_clock: "woke (ps ! k) = b + (int k + 1) * Minute"
    if "\<forall>i\<le>k. late (its ! i) = 0 \<and> took (its ! i) = 0"
    unfolding ps using assms(2) that by (rule sweeper_on_the_minute)
  have pass: "after (ps ! k)
      = sweep (\<lambda>ip. woke (ps ! k) + reads (its ! k) ip) (visited (its ! k)) (before (ps ! k))"
    unfolding ps using assms(2) by (rule sweeper_pass)
  note exact = pass_removes_exactly_the_idle
    [OF assms(3), of "\<lambda>ip. woke (ps ! k) + reads (its ! k) ip", folded pass]
  from len first later exact_clock exact show ?thesis by blast
qed

text \<open>
  At the example the runtime never oversleeps, so the passes begin at 1, 2, ..., 6
  minutes. The sixth finds A last seen 330 seconds ago and removes it, and finds B
  last seen exactly five minutes ago and keeps it.
\<close>

lemma sweeper_passes_Cons:
  "fst (sweeper (it # its) b s) =
     \<lparr>woke = b + Minute + late it,
       before = fst (snd (run (requests (served it)) s)),
       after = sweep (\<lambda>ip. b + Minute + late it + reads it ip) (visited it)
                 (fst (snd (run (requests (served it)) s)))\<rparr>
      # fst (sweeper its (b + Minute + late it + took it)
             (sweep (\<lambda>ip. b + Minute + late it + reads it ip) (visited it)
                 (fst (snd (run (requests (served it)) s))),
              snd (snd (run (requests (served it)) s))))"
  by (simp add: sweeper_Cons del: sweeper.simps(2))

lemma first_minute:
  "fst (snd (run (requests [(instant 30000000000, reqA), (instant 60000000000, reqB)])
     (RateLimitStrict, init_limiters 0))) = two_clients"
  by (simp add: requests_def ServeHTTP_Some [OF split_reqA] ServeHTTP_Some [OF split_reqB]
      limiter_of_def RateLimitStrict_def rateLimiterMiddleware_def instant_def two_clients_def
      Minute_def Second_def split: prod.split)

lemma quiet_pass:
  "t \<le> 330000000000 \<Longrightarrow> sweep (\<lambda>ip. t) [''5.6.7.8'', ''1.2.3.4''] two_clients = two_clients"
  by (simp add: sweep_def Since_idle_iff two_clients_def)

lemma quiet_iteration:
  assumes "b + 60000000000 \<le> 330000000000"
  shows "fst (sweeper (exact_iteration [] # its) b (two_clients, ls))
       = \<lparr>woke = b + 60000000000, before = two_clients, after = two_clients\<rparr>
         # fst (sweeper its (b + 60000000000) (two_clients, ls))"
  using assms
  by (simp add: sweeper_passes_Cons exact_iteration_def requests_def quiet_pass Minute_def Second_def
      del: sweeper.simps(2))

lemma first_iteration:
  "\<exists>ls. fst (sweeper (exact_iteration [(instant (30 * Second), reqA), (instant Minute, reqB)] # its) 0
              (RateLimitStrict, init_limiters 0))
       = \<lparr>woke = 60000000000, before = two_clients, after = two_clients\<rparr>
         # fst (sweeper its 60000000000 (two_clients, ls))"
proof -
  have "fst (sweeper (exact_iteration [(instant (30 * Second), reqA), (instant Minute, reqB)] # its) 0
              (RateLimitStrict, init_limiters 0))
       = \<lparr>woke = 60000000000, before = two_clients, after = two_clients\<rparr>
         # fst (sweeper its 60000000000 (two_clients,
             snd (snd (run (requests [(instant (30 * Second), reqA), (instant Minute, reqB)])
                (RateLimitStrict, init_limiters 0)))))"
    unfolding sweeper_passes_Cons
    by (simp add: exact_iteration_def Minute_def Second_def first_minute quiet_pass)
  then show ?thesis by blast
qed

lemma six_minutes_passes:
  "\<exists>ls. fst (sweeper six_minutes 0 (RateLimitStrict, init_limiters 0))
     = [\<lparr>woke = 60000000000, before = two_clients, after = two_clients\<rparr>,
        \<lparr>woke = 120000000000, before = two_clients, after = two_clients\<rparr>,
        \<lparr>woke = 180000000000, before = two_clients, after = two_clients\<rparr>,
        \<lparr>woke = 240000000000, before = two_clients, after = two_clients\<rparr>,
        \<lparr>woke = 300000000000, before = two_clients, after = two_clients\<rparr>,
        \<lparr>woke = 360000000000, before = two_clients,
          after = sweep (\<lambda>ip. 360000000000) [''5.6.7.8'', ''1.2.3.4''] two_clients\<rparr>]"
proof -
  obtain ls where "fst (sweeper six_minutes 0 (RateLimitStrict, init_limiters 0))
       = \<lparr>woke = 60000000000, before = two_clients, after = two_clients\<rparr>
         # fst (sweeper (replicate 5 (exact_iteration [])) 60000000000 (two_clients, ls))"
    unfolding six_minutes_def using first_iteration by blast
  moreover have "fst (sweeper (replicate 5 (exact_iteration [])) 60000000000 (two_clients, ls))
     = [\<lparr>woke = 120000000000, before = two_clients, after = two_clients\<rparr>,
        \<lparr>woke = 180000000000, before = two_clients, after = two_clients\<rparr>,
        \<lparr>woke = 240000000000, before = two_clients, after = two_clients\<rparr>,
        \<lparr>woke = 300000000000, before = two_clients, after = two_clients\<rparr>,
        \<lparr>woke = 360000000000, before = two_clients,
          after = sweep (\<lambda>ip. 360000000000) [''5.6.7.8'', ''1.2.3.4''] two_clients\<rparr>]"
    by (simp add: eval_nat_numeral quiet_iteration del: sweeper.simps(2))
       (simp add: exact_iteration_def requests_def Sleep_def Let_def Minute_def Second_def)
  ultimately show ?thesis by auto
qed

theorem sweeper_passes_every_minute_and_removes_exactly_the_idle_witness:
  "5 < length six_minutes
   \<and> dom (clients (before (fst (sweeper six_minutes 0 (RateLimitStrict, init_limiters 0)) ! 5)))
        \<subseteq> set (visited (six_minutes ! 5))
   \<and> length (fst (sweeper six_minutes 0 (RateLimitStrict, init_limiters 0))) = 6
   \<and> woke (fst (sweeper six_minutes 0 (RateLimitStrict, init_limiters 0)) ! 0) = Minute
   \<and> woke (fst (sweeper six_minutes 0 (RateLimitStrict, init_limiters 0)) ! 4) = 5 * Minute
   \<and> woke (fst (sweeper six_minutes 0 (RateLimitStrict, init_limiters 0)) ! 5) = 6 * Minute
   \<and> before (fst (sweeper six_minutes 0 (RateLimitStrict, init_limiters 0)) ! 5) = two_clients
   \<and> clients two_clients ''1.2.3.4'' = Some \<lparr>limiter = RateLimitStrictAPI, lastSeen = 30000000000\<rparr>
   \<and> clients (after (fst (sweeper six_minutes 0 (RateLimitStrict, init_limiters 0)) ! 5)) ''1.2.3.4''
        = None
   \<and> clients (after (fst (sweeper six_minutes 0 (RateLimitStrict, init_limiters 0)) ! 5)) ''5.6.7.8''
        = Some \<lparr>limiter = RateLimitStrictAPI, lastSeen = 60000000000\<rparr>"
proof -
  let ?ps = "fst (sweeper six_minutes 0 (RateLimitStrict, init_limiters 0))"
  have run: "sweeper six_minutes 0 (RateLimitStrict, init_limiters 0)
      = (?ps, snd (sweeper six_minutes 0 (RateLimitStrict, init_limiters 0)))"
    by simp
  have k: "5 < length six_minutes"
    by (simp add: six_minutes_def)
  have it5: "six_minutes ! 5 = exact_iteration []" and it4: "six_minutes ! 4 = exact_iteration []"
    by (simp_all add: six_minutes_def eval_nat_numeral)
  have w4: "woke (?ps ! 4) = 300000000000" and b5: "before (?ps ! 5) = two_clients"
    using six_minutes_passes by auto
  have a: "clients two_clients ''1.2.3.4'' = Some \<lparr>limiter = RateLimitStrictAPI, lastSeen = 30000000000\<rparr>"
    and b: "clients two_clients ''5.6.7.8'' = Some \<lparr>limiter = RateLimitStrictAPI, lastSeen = 60000000000\<rparr>"
    by (simp_all add: two_clients_def)
  have cover: "dom (clients (before (?ps ! 5))) \<subseteq> set (visited (six_minutes ! 5))"
    unfolding b5 it5 by (simp add: two_clients_def exact_iteration_def)
  note t = sweeper_passes_every_minute_and_removes_exactly_the_idle [OF run k cover]
  from t have len: "length ?ps = 6"
    by (simp add: six_minutes_def)
  have "(5::nat) = Suc 4" by simp
  with t have "woke (?ps ! 5) = woke (?ps ! 4) + took (six_minutes ! 4) + Minute + late (six_minutes ! 5)"
    by blast
  then have w5: "woke (?ps ! 5) = 360000000000"
    unfolding w4 it4 it5 by (simp add: exact_iteration_def Minute_def Second_def)
  have r5: "reads (six_minutes ! 5) ip = 0" for ip
    unfolding it5 by (simp add: exact_iteration_def)
  have "woke (?ps ! 5) + reads (six_minutes ! 5) ''1.2.3.4'' - lastSeen \<lparr>limiter = RateLimitStrictAPI, lastSeen = 30000000000\<rparr>
      > 5 * Minute"
    by (simp add: w5 r5 Minute_def Second_def)
  with t a b5 have gone: "clients (after (?ps ! 5)) ''1.2.3.4'' = None"
    by metis
  have "woke (?ps ! 5) + reads (six_minutes ! 5) ''5.6.7.8'' - lastSeen \<lparr>limiter = RateLimitStrictAPI, lastSeen = 60000000000\<rparr>
      \<le> 5 * Minute"
    by (simp add: w5 r5 Minute_def Second_def)
  with t b b5 have kept: "clients (after (?ps ! 5)) ''5.6.7.8''
      = Some \<lparr>limiter = RateLimitStrictAPI, lastSeen = 60000000000\<rparr>"
    by metis
  have "\<forall>i\<le>5. late (six_minutes ! i) = 0 \<and> took (six_minutes ! i) = 0"
    by (auto simp: six_minutes_def exact_iteration_def nth_Cons')
  with t have "woke (?ps ! 5) = 0 + (int 5 + 1) * Minute"
    by blast
  then have "woke (?ps ! 5) = 6 * Minute"
    by simp
  moreover have "woke (?ps ! 4) = 5 * Minute"
    by (simp add: w4 Minute_def Second_def)
  moreover have "woke (?ps ! 0) = Minute"
  proof -
    have k0: "0 < length six_minutes"
      by (simp add: six_minutes_def)
    have b0: "before (?ps ! 0) = two_clients"
      using six_minutes_passes by auto
    have cover0: "dom (clients (before (?ps ! 0))) \<subseteq> set (visited (six_minutes ! 0))"
      unfolding b0 by (simp add: two_clients_def six_minutes_def exact_iteration_def)
    from sweeper_passes_every_minute_and_removes_exactly_the_idle [OF run k0 cover0]
    have "woke (?ps ! 0) = 0 + Minute + late (six_minutes ! 0)"
      by blast
    then show ?thesis
      by (simp add: six_minutes_def exact_iteration_def)
  qed
  ultimately show ?thesis
    using k cover len b5 a gone kept by blast
qed

section \<open>Activity of a client\<close>

text \<open>
  Claim C9. Whenever the identity \<open>ip\<close> can be extracted, the entry of \<open>ip\<close> after
  the request has \<open>lastSeen\<close> equal to the reading of the clock made for it, whatever
  the limiter decided (the statement does not mention the decision, so it covers the
  admitted and the rejected request). A sweep pass that reads the clock at most five
  minutes after that reading keeps the entry as it is: a client that keeps being
  rejected still counts as active.
\<close>

theorem lastSeen_set_on_every_check:
  assumes "SplitHostPort (RemoteAddr r) = Some (ip, port)"
  shows "(\<exists>c. clients (fst (snd (ServeHTTP clk r (mw, ls)))) ip = Some c \<and> lastSeen c = seen_at clk)
       \<and> (\<forall>nowAt ips. nowAt ip - seen_at clk \<le> 5 * Minute \<longrightarrow>
            clients (sweep nowAt ips (fst (snd (ServeHTTP clk r (mw, ls))))) ip
              = clients (fst (snd (ServeHTTP clk r (mw, ls)))) ip)"
  using assms by (simp add: ServeHTTP_Some sweep_lookup five_minutes)

theorem lastSeen_set_on_every_check_witness:
  "SplitHostPort (RemoteAddr reqA) = Some (''1.2.3.4'', ''5000'')
   \<and> fst (ServeHTTP (instant (2 * Minute)) reqA (three_clients, drained (2 * Minute)))
       = [WriteHeader 429, Encode (Message_json (message (2 * Minute)))]
   \<and> (\<exists>c. clients (fst (snd (ServeHTTP (instant (2 * Minute)) reqA (three_clients, drained (2 * Minute)))))
             ''1.2.3.4'' = Some c
          \<and> lastSeen c = 2 * Minute)
   \<and> clients (sweep (\<lambda>ip. 6 * Minute) [''1.2.3.4'']
        (fst (snd (ServeHTTP (instant (2 * Minute)) reqA (three_clients, drained (2 * Minute)))))) ''1.2.3.4''
       = clients (fst (snd (ServeHTTP (instant (2 * Minute)) reqA (three_clients, drained (2 * Minute)))))
           ''1.2.3.4''"
proof -
  note t = lastSeen_set_on_every_check
    [OF split_reqA, of "instant (2 * Minute)" three_clients "drained (2 * Minute)"]
  have rej: "fst (ServeHTTP (instant (2 * Minute)) reqA (three_clients, drained (2 * Minute)))
       = [WriteHeader 429, Encode (Message_json (message (2 * Minute)))]"
    by (simp add: ServeHTTP_Some [OF split_reqA] limiter_of_def three_clients_def drained_def
        Allow_def NewLimiter_def instant_def StatusTooManyRequests_def Minute_def Second_def)
  have gap: "(\<lambda>ip::string. 6 * Minute) ''1.2.3.4'' - seen_at (instant (2 * Minute)) \<le> 5 * Minute"
    by (simp add: instant_def Minute_def Second_def)
  from t gap rej split_reqA show ?thesis
    by (simp add: instant_def)
qed

section \<open>One limiter behind every entry\<close>

lemma holds_only_new: "holds_only p (rateLimiterMiddleware p)"
  by (simp add: holds_only_def rateLimiterMiddleware_def)

lemma holds_only_limiter_of: "holds_only p mw \<Longrightarrow> limiter_of mw ip = p"
  by (auto simp: holds_only_def limiter_of_def split: option.split)

lemma holds_only_ServeHTTP:
  assumes "holds_only p mw"
  shows "holds_only p (fst (snd (ServeHTTP clk r (mw, ls))))"
proof (cases "SplitHostPort (RemoteAddr r)")
  case None
  with assms show ?thesis by (simp add: ServeHTTP_None)
next
  case (Some hp)
  then obtain ip port where "SplitHostPort (RemoteAddr r) = Some (ip, port)"
    by (cases hp) simp
  with assms show ?thesis
    by (simp add: ServeHTTP_Some holds_only_limiter_of) (simp add: holds_only_def)
qed

lemma holds_only_sweep:
  assumes "holds_only p mw"
  shows "holds_only p (sweep nowAt ips mw)"
  unfolding holds_only_def
proof (intro conjI allI impI)
  show "rateLimit (sweep nowAt ips mw) = p"
    using assms by (simp add: sweep_def holds_only_def)
next
  fix ip c
  assume "clients (sweep nowAt ips mw) ip = Some c"
  then have "clients mw ip = Some c"
    by (simp add: sweep_lookup split: option.splits if_splits)
  with assms show "limiter c = p" by (simp add: holds_only_def)
qed

lemma holds_only_step:
  "holds_only p mw \<Longrightarrow> holds_only p (fst (snd (step e (mw, ls))))"
  by (cases e) (simp_all add: holds_only_ServeHTTP holds_only_sweep)

lemma holds_only_process_step:
  assumes "\<forall>i. holds_only (rl i) (ms i)"
  shows "\<forall>i. holds_only (rl i) (fst (snd (process_step e (ms, ls))) i)"
proof
  fix i
  obtain j ev where e: "e = (j, ev)" by (cases e)
  obtain out m' ls' where s: "step ev (ms j, ls) = (out, m', ls')"
    by (cases "step ev (ms j, ls)")
  have "holds_only (rl j) (fst (snd (step ev (ms j, ls))))"
    using assms by (simp add: holds_only_step)
  with s have "holds_only (rl j) m'" by simp
  with assms e s show "holds_only (rl i) (fst (snd (process_step e (ms, ls))) i)"
    by simp
qed

lemma holds_only_process_run:
  "\<forall>i. holds_only (rl i) (ms i) \<Longrightarrow>
   \<forall>i. holds_only (rl i) (fst (snd (process_run h (ms, ls))) i)"
proof (induction h arbitrary: ms ls)
  case Nil
  then show ?case by simp
next
  case (Cons e es)
  obtain out ms' ls' where s: "process_step e (ms, ls) = (out, ms', ls')"
    by (cases "process_step e (ms, ls)")
  from holds_only_process_step [OF Cons.prems, of e ls] s
  have "\<forall>i. holds_only (rl i) (ms' i)" by simp
  from Cons.IH [OF this, of ls']
  have "\<forall>i. holds_only (rl i) (fst (snd (process_run es (ms', ls'))) i)" .
  moreover have "fst (snd (process_run (e # es) (ms, ls))) = fst (snd (process_run es (ms', ls')))"
    using s by (simp split: prod.split)
  ultimately show ?case by simp
qed

lemma process_step_Serve:
  assumes "SplitHostPort (RemoteAddr r) = Some (ip, port)" and "holds_only p (ms i)"
  shows "process_step (i, Serve clk r) (ms, ls) =
           (if fst (Allow (allow_at clk) (ls p)) then [ServeNext r]
            else [WriteHeader StatusTooManyRequests, Encode (Message_json (message (message_at clk)))],
            ms(i := (ms i)\<lparr>clients := (clients (ms i))(ip \<mapsto> \<lparr>limiter = p, lastSeen = seen_at clk\<rparr>)\<rparr>),
            ls(p := snd (Allow (allow_at clk) (ls p))))"
  using assms by (simp add: ServeHTTP_Some holds_only_limiter_of)

lemma Allow_same_instant:
  "Allow t \<lparr>capacity = c, refillRatePerSecond = q, tokens = k, lastRefillTime = t\<rparr> =
     (if 1 \<le> min (of_int c) k
      then (True, \<lparr>capacity = c, refillRatePerSecond = q, tokens = min (of_int c) k - 1, lastRefillTime = t\<rparr>)
      else (False, \<lparr>capacity = c, refillRatePerSecond = q, tokens = min (of_int c) k, lastRefillTime = t\<rparr>))"
  by (simp add: Allow_def Let_def)

lemma run_ten_on_first:
  "process_run ten_on_first (\<lambda>i. rateLimiterMiddleware RateLimitStrictAPI, init_limiters 0)
     = (replicate 10 [ServeNext reqA], after_ten, drained 0)"
  by (simp add: ten_on_first_def eval_nat_numeral ServeHTTP_Some [OF split_reqA] limiter_of_def
      rateLimiterMiddleware_def NewLimiter_def instant_def Allow_same_instant after_ten_def drained_def)

text \<open>
  Claim C4. Take any number of handlers, handler \<open>i\<close> built by
  \<^verbatim>\<open>rateLimiterMiddleware\<close> with the pointer \<open>rl i\<close>, and any history of
  requests and sweep passes on them. Afterwards handler \<open>i\<close> still holds the pointer
  \<open>rl i\<close>, and every entry of its map holds that same pointer. A request to handler
  \<open>i\<close> from an identity, known or new, stores an entry with the pointer \<open>rl i\<close>, is
  decided by the limiter object \<open>rl i\<close> points to and changes that object only: no
  limiter is created, and the maps of the other handlers stay as they are. The four
  constructors pass the four package-level limiters, so two handlers built by the same
  constructor (\<open>rl i = rl j\<close>) are decided by, and spend the tokens of, one object.
\<close>

theorem every_entry_holds_the_limiter_it_was_built_with:
  assumes "process_run h (\<lambda>i. rateLimiterMiddleware (rl i), ls0) = (outs, ms, ls)"
  shows "rateLimit (ms i) = rl i
       \<and> (\<forall>ip c. clients (ms i) ip = Some c \<longrightarrow> limiter c = rl i)
       \<and> (\<forall>clk r ip port. SplitHostPort (RemoteAddr r) = Some (ip, port) \<longrightarrow>
            process_step (i, Serve clk r) (ms, ls) =
              (if fst (Allow (allow_at clk) (ls (rl i))) then [ServeNext r]
               else [WriteHeader StatusTooManyRequests,
                     Encode (Message_json (message (message_at clk)))],
               ms(i := (ms i)\<lparr>clients :=
                    (clients (ms i))(ip \<mapsto> \<lparr>limiter = rl i, lastSeen = seen_at clk\<rparr>)\<rparr>),
               ls(rl i := snd (Allow (allow_at clk) (ls (rl i))))))
       \<and> rateLimit RateLimitPublic = RateLimitPublicAPI
       \<and> rateLimit RateLimitInternal = RateLimitInternalAPI
       \<and> rateLimit RateLimitWeb = RateLimitUserWebAPI
       \<and> rateLimit RateLimitStrict = RateLimitStrictAPI"
proof -
  have "\<forall>i. holds_only (rl i) ((\<lambda>i. rateLimiterMiddleware (rl i)) i)"
    by (simp add: holds_only_new)
  from holds_only_process_run [OF this, of h ls0] assms
  have inv: "holds_only (rl i) (ms i)" by simp
  then have "rateLimit (ms i) = rl i"
    and "\<forall>ip c. clients (ms i) ip = Some c \<longrightarrow> limiter c = rl i"
    by (simp_all add: holds_only_def)
  moreover have "\<forall>clk r ip port. SplitHostPort (RemoteAddr r) = Some (ip, port) \<longrightarrow>
            process_step (i, Serve clk r) (ms, ls) =
              (if fst (Allow (allow_at clk) (ls (rl i))) then [ServeNext r]
               else [WriteHeader StatusTooManyRequests,
                     Encode (Message_json (message (message_at clk)))],
               ms(i := (ms i)\<lparr>clients :=
                    (clients (ms i))(ip \<mapsto> \<lparr>limiter = rl i, lastSeen = seen_at clk\<rparr>)\<rparr>),
               ls(rl i := snd (Allow (allow_at clk) (ls (rl i)))))"
    using process_step_Serve [where p = "rl i" and ms = ms and i = i] inv by blast
  moreover have "rateLimit RateLimitPublic = RateLimitPublicAPI"
    and "rateLimit RateLimitInternal = RateLimitInternalAPI"
    and "rateLimit RateLimitWeb = RateLimitUserWebAPI"
    and "rateLimit RateLimitStrict = RateLimitStrictAPI"
    by (simp_all add: RateLimitPublic_def RateLimitInternal_def RateLimitWeb_def
        RateLimitStrict_def rateLimiterMiddleware_def)
  ultimately show ?thesis by blast
qed

text \<open>
  At the example: after ten requests of A to the first strict handler, the entry of A
  holds the strict limiter; the second strict handler has an empty map of its own, and
  yet its first request, from B at the same instant, is rejected.
\<close>

theorem every_entry_holds_the_limiter_it_was_built_with_witness:
  "process_run ten_on_first (\<lambda>i. rateLimiterMiddleware RateLimitStrictAPI, init_limiters 0)
     = (replicate 10 [ServeNext reqA], after_ten, drained 0)
   \<and> clients (after_ten 0) ''1.2.3.4'' = Some \<lparr>limiter = RateLimitStrictAPI, lastSeen = 0\<rparr>
   \<and> limiter \<lparr>limiter = RateLimitStrictAPI, lastSeen = 0\<rparr> = RateLimitStrictAPI
   \<and> clients (after_ten 1) = Map.empty
   \<and> SplitHostPort (RemoteAddr reqB) = Some (''5.6.7.8'', ''6000'')
   \<and> process_step (1, Serve (instant 0) reqB) (after_ten, drained 0)
       = ([WriteHeader 429, Encode (Message_json (message 0))],
          after_ten(1 := \<lparr>rateLimit = RateLimitStrictAPI,
            clients = [''5.6.7.8'' \<mapsto> \<lparr>limiter = RateLimitStrictAPI, lastSeen = 0\<rparr>]\<rparr>),
          drained 0)"
proof -
  note t0 = every_entry_holds_the_limiter_it_was_built_with [OF run_ten_on_first, of 0]
  note t1 = every_entry_holds_the_limiter_it_was_built_with [OF run_ten_on_first, of 1]
  have a: "clients (after_ten 0) ''1.2.3.4'' = Some \<lparr>limiter = RateLimitStrictAPI, lastSeen = 0\<rparr>"
    by (simp add: after_ten_def)
  have b: "clients (after_ten 1) = Map.empty"
    by (simp add: after_ten_def rateLimiterMiddleware_def)
  have c: "after_ten (Suc 0) = \<lparr>rateLimit = RateLimitStrictAPI, clients = Map.empty\<rparr>"
    by (simp add: after_ten_def rateLimiterMiddleware_def)
  have d: "Allow 0 (drained 0 RateLimitStrictAPI) = (False, drained 0 RateLimitStrictAPI)"
    by (simp add: drained_def NewLimiter_def Allow_same_instant)
  from t1 split_reqB
  have "process_step (1, Serve (instant 0) reqB) (after_ten, drained 0) =
              (if fst (Allow (allow_at (instant 0)) (drained 0 RateLimitStrictAPI)) then [ServeNext reqB]
               else [WriteHeader StatusTooManyRequests,
                     Encode (Message_json (message (message_at (instant 0))))],
               after_ten(1 := (after_ten 1)\<lparr>clients :=
                    (clients (after_ten 1))(''5.6.7.8'' \<mapsto>
                       \<lparr>limiter = RateLimitStrictAPI, lastSeen = seen_at (instant 0)\<rparr>)\<rparr>),
               (drained 0)(RateLimitStrictAPI :=
                    snd (Allow (allow_at (instant 0)) (drained 0 RateLimitStrictAPI))))"
    by blast
  then have e: "process_step (1, Serve (instant 0) reqB) (after_ten, drained 0)
       = ([WriteHeader 429, Encode (Message_json (message 0))],
          after_ten(1 := \<lparr>rateLimit = RateLimitStrictAPI,
            clients = [''5.6.7.8'' \<mapsto> \<lparr>limiter = RateLimitStrictAPI, lastSeen = 0\<rparr>]\<rparr>),
          drained 0)"
    by (simp add: instant_def d c StatusTooManyRequests_def)
  from t0 a have "limiter \<lparr>limiter = RateLimitStrictAPI, lastSeen = 0\<rparr> = RateLimitStrictAPI"
    by blast
  with run_ten_on_first a b e split_reqB show ?thesis by simp
qed

section \<open>A client alone at a full limiter\<close>

text \<open>
  When the limiter holds \<open>k\<close> tokens and was last refilled at instant \<open>T\<close>, of any
  number of requests one identity sends at \<open>T\<close> the first \<open>k\<close> are forwarded and
  the others rejected. In particular a client that is alone at a handler whose limiter
  has not been used since the package was initialised gets exactly the burst of the
  preset: 100, 200, 30 or 10 requests forwarded, the next one rejected.
\<close>

lemma holds_only_touch:
  "holds_only p mw \<Longrightarrow>
   holds_only p (mw\<lparr>clients := (clients mw)(ip \<mapsto> \<lparr>limiter = p, lastSeen = t\<rparr>)\<rparr>)"
  by (simp add: holds_only_def)

lemma Allow_eq:
  "Allow T \<lparr>capacity = c, refillRatePerSecond = q, tokens = k, lastRefillTime = t0\<rparr> =
     (let m = min (of_int c) (k + of_int (T - t0) / 1000000000 * q)
      in if 1 \<le> m
         then (True, \<lparr>capacity = c, refillRatePerSecond = q, tokens = m - 1, lastRefillTime = T\<rparr>)
         else (False, \<lparr>capacity = c, refillRatePerSecond = q, tokens = m, lastRefillTime = T\<rparr>))"
  by (simp add: Allow_def Let_def)

lemma Allow_token:
  assumes "int (Suc k) \<le> c"
  shows "Allow T \<lparr>capacity = c, refillRatePerSecond = q, tokens = of_nat (Suc k), lastRefillTime = T\<rparr>
       = (True, \<lparr>capacity = c, refillRatePerSecond = q, tokens = of_nat k, lastRefillTime = T\<rparr>)"
proof -
  have "real_of_int (int (Suc k)) \<le> real_of_int c"
    using assms by (simp only: of_int_le_iff)
  then have "real (Suc k) \<le> real_of_int c" by simp
  then have m: "min (real_of_int c) (real (Suc k) + real_of_int (T - T) / 1000000000 * q) = real (Suc k)"
    by simp
  have "(1::real) \<le> real (Suc k)" and "real (Suc k) - 1 = real k" by simp_all
  then show ?thesis by (simp only: Allow_eq Let_def m if_True)
qed

lemma Allow_empty:
  assumes "0 \<le> c"
  shows "Allow T \<lparr>capacity = c, refillRatePerSecond = q, tokens = 0, lastRefillTime = T\<rparr>
       = (False, \<lparr>capacity = c, refillRatePerSecond = q, tokens = 0, lastRefillTime = T\<rparr>)"
proof -
  have m: "min (real_of_int c) (0 + real_of_int (T - T) / 1000000000 * q) = 0"
    using assms by simp
  have "\<not> (1::real) \<le> 0" by simp
  then show ?thesis by (simp only: Allow_eq Let_def m if_False)
qed

lemma Serve_at_instant:
  assumes "SplitHostPort (RemoteAddr r) = Some (ip, port)"
    and "holds_only p mw"
    and "ls p = \<lparr>capacity = c, refillRatePerSecond = q, tokens = of_nat k, lastRefillTime = T\<rparr>"
    and "int k \<le> c"
  shows "ServeHTTP (instant T) r (mw, ls) =
           (if 1 \<le> k then [ServeNext r] else rejected_at T,
            mw\<lparr>clients := (clients mw)(ip \<mapsto> \<lparr>limiter = p, lastSeen = T\<rparr>)\<rparr>,
            ls(p := \<lparr>capacity = c, refillRatePerSecond = q, tokens = of_nat (k - 1), lastRefillTime = T\<rparr>))"
proof (cases k)
  case 0
  with assms(4) have "0 \<le> c" by simp
  then have "Allow T (ls p)
      = (False, \<lparr>capacity = c, refillRatePerSecond = q, tokens = 0, lastRefillTime = T\<rparr>)"
    using assms(3) 0 by (simp add: Allow_empty)
  with 0 assms(1,2) show ?thesis
    by (simp add: ServeHTTP_Some holds_only_limiter_of instant_def rejected_at_def)
next
  case (Suc k')
  with assms(4) have "int (Suc k') \<le> c" by simp
  then have "Allow T \<lparr>capacity = c, refillRatePerSecond = q, tokens = of_nat (Suc k'), lastRefillTime = T\<rparr>
      = (True, \<lparr>capacity = c, refillRatePerSecond = q, tokens = of_nat k', lastRefillTime = T\<rparr>)"
    by (rule Allow_token)
  then have "Allow T (ls p)
      = (True, \<lparr>capacity = c, refillRatePerSecond = q, tokens = of_nat k', lastRefillTime = T\<rparr>)"
    using assms(3) Suc by simp
  with Suc assms(1,2) show ?thesis
    by (simp add: ServeHTTP_Some holds_only_limiter_of instant_def rejected_at_def)
qed

lemma burst_at_one_instant:
  assumes "SplitHostPort (RemoteAddr r) = Some (ip, port)"
  shows "holds_only p mw \<Longrightarrow>
     ls p = \<lparr>capacity = c, refillRatePerSecond = q, tokens = of_nat k, lastRefillTime = T\<rparr> \<Longrightarrow>
     int k \<le> c \<Longrightarrow>
     fst (run (replicate j (Serve (instant T) r)) (mw, ls))
       = replicate (min j k) [ServeNext r] @ replicate (j - k) (rejected_at T)"
proof (induction j arbitrary: mw ls k)
  case 0
  show ?case by simp
next
  case (Suc j)
  let ?mw = "mw\<lparr>clients := (clients mw)(ip \<mapsto> \<lparr>limiter = p, lastSeen = T\<rparr>)\<rparr>"
  let ?ls = "ls(p := \<lparr>capacity = c, refillRatePerSecond = q, tokens = of_nat (k - 1), lastRefillTime = T\<rparr>)"
  have step1: "ServeHTTP (instant T) r (mw, ls) =
      (if 1 \<le> k then [ServeNext r] else rejected_at T, ?mw, ?ls)"
    using assms Suc.prems by (rule Serve_at_instant)
  have "holds_only p ?mw" using Suc.prems(1) by (rule holds_only_touch)
  moreover have "?ls p = \<lparr>capacity = c, refillRatePerSecond = q, tokens = of_nat (k - 1), lastRefillTime = T\<rparr>"
    by simp
  moreover have "int (k - 1) \<le> c" using Suc.prems(3) by simp
  ultimately have rest: "fst (run (replicate j (Serve (instant T) r)) (?mw, ?ls))
       = replicate (min j (k - 1)) [ServeNext r] @ replicate (j - (k - 1)) (rejected_at T)"
    by (rule Suc.IH)
  have "fst (run (replicate (Suc j) (Serve (instant T) r)) (mw, ls))
      = (if 1 \<le> k then [ServeNext r] else rejected_at T)
        # fst (run (replicate j (Serve (instant T) r)) (?mw, ?ls))"
    by (simp add: step1 split: prod.split)
  also have "\<dots> = replicate (min (Suc j) k) [ServeNext r] @ replicate (Suc j - k) (rejected_at T)"
  proof (cases k)
    case 0
    then show ?thesis unfolding rest by simp
  next
    case (Suc k')
    then show ?thesis unfolding rest by simp
  qed
  finally show ?case .
qed

lemma Allow_full_later:
  assumes "0 \<le> q" and "t0 \<le> T"
  shows "Allow T \<lparr>capacity = c, refillRatePerSecond = q, tokens = of_int c, lastRefillTime = t0\<rparr>
       = Allow T \<lparr>capacity = c, refillRatePerSecond = q, tokens = of_int c, lastRefillTime = T\<rparr>"
proof -
  have "0 \<le> real_of_int (T - t0) / 1000000000 * q"
    using assms by simp
  then have a: "min (real_of_int c) (real_of_int c + real_of_int (T - t0) / 1000000000 * q) = real_of_int c"
    by simp
  have b: "min (real_of_int c) (real_of_int c + real_of_int (T - T) / 1000000000 * q) = real_of_int c"
    by simp
  show ?thesis by (simp only: Allow_eq a b)
qed

lemma Serve_full_later:
  assumes "SplitHostPort (RemoteAddr r) = Some (ip, port)"
    and "holds_only p mw"
    and "ls p = \<lparr>capacity = c, refillRatePerSecond = q, tokens = of_int c, lastRefillTime = t0\<rparr>"
    and "0 \<le> q" and "t0 \<le> T"
  shows "ServeHTTP (instant T) r (mw, ls) =
         ServeHTTP (instant T) r
           (mw, ls(p := \<lparr>capacity = c, refillRatePerSecond = q, tokens = of_int c, lastRefillTime = T\<rparr>))"
  using assms(1,2) Allow_full_later [OF assms(4,5), of c]
  by (simp add: ServeHTTP_Some holds_only_limiter_of instant_def assms(3))

lemma init_limiters_full:
  "\<exists>n q. 0 \<le> q \<and>
     init_limiters t0 rl =
       \<lparr>capacity = int n, refillRatePerSecond = q, tokens = of_int (int n), lastRefillTime = t0\<rparr>
     \<and> n = nat (capacity (init_limiters t0 rl))"
  by (cases rl) (simp_all add: NewLimiter_def)

lemma burst_of_untouched_limiter:
  assumes "SplitHostPort (RemoteAddr r) = Some (ip, port)" and "t0 \<le> T"
  shows "fst (run (replicate (Suc (nat (capacity (init_limiters t0 rl)))) (Serve (instant T) r))
                (rateLimiterMiddleware rl, init_limiters t0))
       = replicate (nat (capacity (init_limiters t0 rl))) [ServeNext r] @ [rejected_at T]"
proof -
  obtain n q where q: "0 \<le> q"
    and full: "init_limiters t0 rl =
       \<lparr>capacity = int n, refillRatePerSecond = q, tokens = of_int (int n), lastRefillTime = t0\<rparr>"
    and n: "n = nat (capacity (init_limiters t0 rl))"
    using init_limiters_full by blast
  let ?mw = "rateLimiterMiddleware rl"
  let ?ls = "(init_limiters t0)
      (rl := \<lparr>capacity = int n, refillRatePerSecond = q, tokens = of_nat n, lastRefillTime = T\<rparr>)"
  have first: "ServeHTTP (instant T) r (?mw, init_limiters t0) = ServeHTTP (instant T) r (?mw, ?ls)"
    using Serve_full_later [where ls = "init_limiters t0" and p = rl, OF assms(1) holds_only_new full q assms(2)]
    by simp
  have "fst (run (replicate (Suc n) (Serve (instant T) r)) (?mw, init_limiters t0))
      = fst (run (replicate (Suc n) (Serve (instant T) r)) (?mw, ?ls))"
    by (simp add: first)
  also have "\<dots> = replicate (min (Suc n) n) [ServeNext r] @ replicate (Suc n - n) (rejected_at T)"
    by (rule burst_at_one_instant
          [where p = rl and c = "int n" and q = q and k = n, OF assms(1) holds_only_new])
       simp_all
  also have "\<dots> = replicate n [ServeNext r] @ [rejected_at T]"
    by simp
  finally show ?thesis by (simp only: n [symmetric])
qed

lemma burst_of_each_preset:
  assumes "SplitHostPort (RemoteAddr r) = Some (ip, port)" and "t0 \<le> T"
  shows "fst (run (replicate 101 (Serve (instant T) r)) (RateLimitPublic, init_limiters t0))
           = replicate 100 [ServeNext r] @ [rejected_at T]"
    and "fst (run (replicate 201 (Serve (instant T) r)) (RateLimitInternal, init_limiters t0))
           = replicate 200 [ServeNext r] @ [rejected_at T]"
    and "fst (run (replicate 31 (Serve (instant T) r)) (RateLimitWeb, init_limiters t0))
           = replicate 30 [ServeNext r] @ [rejected_at T]"
    and "fst (run (replicate 11 (Serve (instant T) r)) (RateLimitStrict, init_limiters t0))
           = replicate 10 [ServeNext r] @ [rejected_at T]"
  using burst_of_untouched_limiter [OF assms, of RateLimitPublicAPI]
        burst_of_untouched_limiter [OF assms, of RateLimitInternalAPI]
        burst_of_untouched_limiter [OF assms, of RateLimitUserWebAPI]
        burst_of_untouched_limiter [OF assms, of RateLimitStrictAPI]
  by (simp_all add: NewLimiter_def RateLimitPublic_def RateLimitInternal_def RateLimitWeb_def
      RateLimitStrict_def del: replicate.simps)

section \<open>What the shared limiter does to single clients\<close>

lemmas scenario_simps =
  eval_nat_numeral ServeHTTP_Some [OF split_reqA] ServeHTTP_Some [OF split_reqB] limiter_of_def
  RateLimitStrict_def rateLimiterMiddleware_def NewLimiter_def instant_def Allow_def Let_def
  StatusTooManyRequests_def Minute_def Second_def sweep_def Since_def Sub_def
  maxDuration_def minDuration_def

text \<open>
  Claim C1 says that the traffic of client A never makes a request of client B fail.
  On the code it does: the entries of A and B point to the same limiter. Here a strict
  handler (burst 10) admits ten requests of A at instant 0 and then rejects with 429
  the first request B ever sends, at the same instant; the same request of B is
  admitted when A has sent nothing.
\<close>

theorem exhausting_A_rejects_B:
  "fst (run exhaust_then_other (RateLimitStrict, init_limiters 0))
     = replicate 10 [ServeNext reqA] @ [[WriteHeader 429, Encode (Message_json (message 0))]]
   \<and> fst (run [Serve (instant 0) reqB] (RateLimitStrict, init_limiters 0)) = [[ServeNext reqB]]"
  by (simp add: exhaust_then_other_def scenario_simps)

text \<open>
  Claim C2 says that a client evicted after five idle minutes comes back as a fresh
  client with a full burst. On the code the sweeper does remove the entry (first
  conjunct: after A's request at instant 0 and a pass at six minutes, A has no entry),
  but the entry stored for A on its return points to the shared limiter: when B has
  just sent ten requests, the first request of the returning A is rejected with 429.
\<close>

theorem evicted_client_gets_no_fresh_burst:
  "clients (fst (snd (run (take 2 idle_then_back) (RateLimitStrict, init_limiters 0)))) ''1.2.3.4'' = None
   \<and> fst (run idle_then_back (RateLimitStrict, init_limiters 0))
     = [[ServeNext reqA], []] @ replicate 10 [ServeNext reqB]
       @ [[WriteHeader 429, Encode (Message_json (message (6 * Minute + Second)))]]"
  by (simp add: idle_then_back_def scenario_simps)

text \<open>
  Claim C3 says that a client first seen at an instant T has its first
  \<open>capacity\<close> requests at T admitted and the next one rejected. On the code the
  burst is that of the shared limiter: when B has sent four requests at T, client A,
  first seen at T, has six of its eleven requests admitted and the seventh to the
  eleventh rejected (strict handler, burst 10).
\<close>

theorem burst_cut_short_by_other_client:
  "fst (run burst_after_other (RateLimitStrict, init_limiters 0))
     = replicate 4 [ServeNext reqB] @ replicate 6 [ServeNext reqA]
       @ replicate 5 [WriteHeader 429, Encode (Message_json (message Second))]"
  by (simp add: burst_after_other_def scenario_simps)

section \<open>The rejection response\<close>

text \<open>
  Claim C5 says that a rejected request gets status 429, a JSON body with the members
  \<open>status\<close>, \<open>body\<close>, \<open>locked\<close> and \<open>timestamp\<close>, and a content type declared
  as JSON. On the code the status and the body are as claimed, but the handler sets no
  header field at all: its calls are \<^verbatim>\<open>WriteHeader(429)\<close> and the encoding of
  the message, where \<^verbatim>\<open>writeJSON\<close> of the same package first adds
  \<^verbatim>\<open>Content-Type: application/json\<close>.
\<close>

theorem rejection_declares_no_content_type:
  "fst (ServeHTTP (instant 0) reqA (RateLimitStrict, drained 0))
     = [WriteHeader 429,
        Encode [(''status'', JString ''Request Failed''),
                (''body'', JString ''Rate limit reached. Please wait 5 minutes and try again.''),
                (''locked'', JBool True),
                (''timestamp'', JTime 0)]]
   \<and> writeJSON 429 (Message_json (message 0))
     = [HeaderAdd ''Content-Type'' ''application/json'', WriteHeader 429,
        Encode (Message_json (message 0))]
   \<and> (\<forall>k v. HeaderAdd k v \<notin> set (fst (ServeHTTP (instant 0) reqA (RateLimitStrict, drained 0))))"
  by (simp add: scenario_simps drained_def writeJSON_def Message_json_def message_def)

end
